theory Spec2Isabelle
  imports Main "HOL-Library.Sublist"
begin

section \<open>The task queue of \<open>schie/queue\<close>: data model\<close>

text \<open>
  The class \<open>Queue\<close> (source file \<open>src/unnamed/part_002\<close>) is embedded as a record of its
  private fields and HOL functions for its methods.
\<close>

text \<open>
  Modelled from the spec: the enum \<open>QueueStatus\<close>, which the class imports from
  \<open>./_enums.ts\<close>, a file that is not among the sources. The spec's status is one of four
  mutually exclusive values \<open>Idle\<close>, \<open>Processing\<close>, \<open>Paused\<close>, \<open>Cancelled\<close>; these are the
  four members the class and its tests use.
\<close>

datatype QueueStatus = Idle | Processing | Paused | Cancelled

text \<open>
  A task is an opaque asynchronous callable \<open>() => Promise<void>\<close>. It is identified by a
  number; whether its promise fulfils or rejects is decided by the environment (event
  \<open>Settle\<close> below). As its type says, the callable returns a promise: it does not throw
  before returning one.
\<close>

record QueueEntry =
  task :: nat
  key :: "string option"

text \<open>The JavaScript \<open>Error\<close> object, as far as the class reads it: its message.\<close>

datatype js_error = Error (message: string)

text \<open>
  Values a task may reject with. Line 231 distinguishes two kinds: an \<open>Error\<close>, kept as it
  is, and any other value \<open>v\<close>, of which the class uses only \<open>String(v)\<close>. A value of the
  second kind is therefore given by what \<open>String(v)\<close> does: \<open>NonError (Some m)\<close> when it
  returns the string \<open>m\<close> (for the string \<open>"boom"\<close> that is \<open>"boom"\<close> itself), \<open>NonError None\<close>
  when the conversion throws (an object whose \<open>toString\<close> throws, for instance).
\<close>

datatype thrown = ErrorObj js_error | NonError "string option"

datatype outcome = Fulfilled | Rejected thrown

text \<open>
  An activation of the \<open>async\<close> method \<open>processLoop\<close>. Its control state is the \<open>await\<close> it
  is parked at, if any:
  \<^item> \<open>Running\<close>: executing, not parked (it is created in this state, and it is in this state
    while the callback it has called is running);
  \<^item> \<open>InTask\<close>: at \<open>await entry.task()\<close> (line 227), the callable having been invoked;
  \<^item> \<open>Blocked\<close>: at \<open>await new Promise(resolve => this.resumeResolve = resolve)\<close>
    (lines 216 and 233), the promise not yet resolved;
  \<^item> \<open>Ready\<close>: the awaited resume promise has been resolved, the continuation has not run
    yet;
  \<^item> \<open>Returned\<close>: the method has returned (or thrown), the \<open>.finally\<close> callback of
    \<open>startRunner\<close> has not run yet;
  \<^item> \<open>Done\<close>: the \<open>.finally\<close> callback has run.
  \<open>captured\<close> is the parameter \<open>currentVersion\<close>.
\<close>

datatype loop_pc = Running | InTask | Blocked | Ready | Returned | Done

record loop =
  captured :: nat
  pc :: loop_pc

datatype position = Front | End

text \<open>
  \<open>onStatusChange\<close> is called in the middle of several methods, and the callback may call
  the queue again (the test suite does). So may a task in its synchronous part, which runs
  inside \<open>startRunner\<close> before \<open>this.runner\<close> is assigned. A method that has called out
  in this way and has code left to run is recorded as a frame: the code that runs when the
  callback, or the synchronous part of the task, returns.
  \<^item> \<open>AfterCancelled\<close>: \<open>cancelQueue\<close> after line 181 (lines 182-186);
  \<^item> \<open>AfterResumed\<close>: \<open>resumeQueue\<close> after line 169 (lines 170-173);
  \<^item> \<open>AfterResurrected\<close>: \<open>enqueue\<close> after line 136 (lines 139-153), with its arguments;
  \<^item> \<open>AfterProcessing\<close>: \<open>startRunner\<close> after line 206 (lines 207-210);
  \<^item> \<open>AfterPaused lid\<close>: the \<open>catch\<close> block of activation \<open>lid\<close> after line 232 (line 233);
  \<^item> \<open>AssignRunner lid\<close>: \<open>startRunner\<close> once \<open>processLoop\<close> has come back: the assignment
    \<open>this.runner = ...finally(...)\<close> of line 208.
  A notification that is the last thing a method does needs no frame.
\<close>

datatype frame =
    AfterCancelled
  | AfterResumed
  | AfterResurrected nat position "string option"
  | AfterProcessing
  | AfterPaused nat
  | AssignRunner nat

text \<open>
  The fields of the class. \<open>runner\<close> and \<open>resumeResolve\<close> hold the index (in \<open>loops\<close>) of the
  activation whose promise, respectively whose resume promise, they refer to. \<open>stack\<close> holds
  the frames, innermost first. Two fields are observations and not part of the class:
  \<open>notified\<close> lists the arguments of the calls of \<open>onStatusChange\<close> in order, \<open>started\<close> lists
  the tasks whose callable has been invoked, in order. \<open>version\<close> is a JavaScript number that
  is only incremented; it is a \<open>nat\<close> here.
\<close>

record queue_state =
  queue :: "QueueEntry list"
  status :: QueueStatus
  runner :: "nat option"
  resumeResolve :: "nat option"
  lastError :: "js_error option"
  pauseOnError :: bool
  currentTaskKey :: "string option"
  version :: nat
  notified :: "QueueStatus list"
  started :: "nat list"
  loops :: "loop list"
  stack :: "frame list"

section \<open>Methods\<close>

text \<open>The constructor (lines 43-48): the callback is invoked once with \<open>Idle\<close>.\<close>

definition constructor :: "bool \<Rightarrow> queue_state" where
  "constructor poe =
     \<lparr>queue = [], status = Idle, runner = None, resumeResolve = None, lastError = None,
      pauseOnError = poe, currentTaskKey = None, version = 0, notified = [Idle],
      started = [], loops = [], stack = []\<rparr>"

text \<open>\<open>setStatus\<close> (lines 57-62): the assignment and the call of the callback.\<close>

definition setStatus :: "QueueStatus \<Rightarrow> queue_state \<Rightarrow> queue_state" where
  "setStatus next s =
     (if status s \<noteq> next then s\<lparr>status := next, notified := notified s @ [next]\<rparr> else s)"

text \<open>The method stops here until the callback (or the task's synchronous part) returns.\<close>

definition yield :: "frame \<Rightarrow> queue_state \<Rightarrow> queue_state" where
  "yield f s = s\<lparr>stack := f # stack s\<rparr>"

definition isProcessing :: "queue_state \<Rightarrow> bool" where
  "isProcessing s = (status s = Processing)"

definition isPaused :: "queue_state \<Rightarrow> bool" where
  "isPaused s = (status s = Paused)"

definition isCancelled :: "queue_state \<Rightarrow> bool" where
  "isCancelled s = (status s = Cancelled)"

definition isIdle :: "queue_state \<Rightarrow> bool" where
  "isIdle s = (status s = Idle)"

text \<open>The getter \<open>size\<close> (line 92).\<close>

definition queue_size :: "queue_state \<Rightarrow> nat" where
  "queue_size s = length (queue s)"

definition lastTaskError :: "queue_state \<Rightarrow> js_error option" where
  "lastTaskError s = lastError s"

definition clearLastError :: "queue_state \<Rightarrow> queue_state" where
  "clearLastError s = s\<lparr>lastError := None\<rparr>"

subsection \<open>The resume promise\<close>

definition set_pc :: "nat \<Rightarrow> loop_pc \<Rightarrow> queue_state \<Rightarrow> queue_state" where
  "set_pc lid p s = s\<lparr>loops := (loops s)[lid := (loops s ! lid)\<lparr>pc := p\<rparr>]\<rparr>"

text \<open>
  \<open>this.resumeResolve?.()\<close>: resolving the promise an activation is blocked on makes its
  continuation ready; resolving a promise again does nothing.
\<close>

definition callResumeResolve :: "queue_state \<Rightarrow> queue_state" where
  "callResumeResolve s =
     (case resumeResolve s of
        None \<Rightarrow> s
      | Some lid \<Rightarrow>
          if lid < length (loops s) \<and> pc (loops s ! lid) = Blocked then set_pc lid Ready s
          else s)"

text \<open>\<open>await new Promise<void>((resolve) => (this.resumeResolve = resolve))\<close>.\<close>

definition awaitResume :: "nat \<Rightarrow> queue_state \<Rightarrow> queue_state" where
  "awaitResume lid s = (set_pc lid Blocked s)\<lparr>resumeResolve := Some lid\<rparr>"

subsection \<open>The execution loop\<close>

text \<open>
  Lines 240-249: what \<open>processLoop\<close> does once its \<open>while\<close> is left. The notification of
  \<open>Idle\<close> is the last thing the method does.
\<close>

definition loopExit :: "nat \<Rightarrow> queue_state \<Rightarrow> queue_state" where
  "loopExit lid s =
     (if version s \<noteq> captured (loops s ! lid) then set_pc lid Returned s
      else if isCancelled s then set_pc lid Returned s
      else setStatus Idle (set_pc lid Returned s))"

text \<open>
  Lines 214-227: activation \<open>lid\<close> from the head of the \<open>while\<close> to its next \<open>await\<close> or to
  its return. No path through the body comes back to the head without an \<open>await\<close>, so this
  is not recursive. Invoking the task appends it to \<open>started\<close>.
\<close>

definition processLoop :: "nat \<Rightarrow> queue_state \<Rightarrow> queue_state" where
  "processLoop lid s =
     (let currentVersion = captured (loops s ! lid) in
      if \<not> isCancelled s \<and> version s = currentVersion then
        if isPaused s then awaitResume lid s
        else
          (case queue s of
             [] \<Rightarrow> loopExit lid s
           | entry # rest \<Rightarrow>
               let s1 = s\<lparr>queue := rest\<rparr> in
               if isCancelled s1 \<or> version s1 \<noteq> currentVersion then loopExit lid s1
               else set_pc lid InTask
                      (s1\<lparr>currentTaskKey := key entry, started := started s1 @ [task entry]\<rparr>))
      else loopExit lid s)"

text \<open>
  \<open>err instanceof Error ? err : new Error(String(err))\<close> (line 231); \<open>None\<close> when \<open>String(err)\<close>
  throws.
\<close>

definition toError :: "thrown \<Rightarrow> js_error option" where
  "toError err =
     (case err of
        ErrorObj e \<Rightarrow> Some e
      | NonError (Some m) \<Rightarrow> Some (Error m)
      | NonError None \<Rightarrow> None)"

text \<open>
  Lines 227-237: the continuation of activation \<open>lid\<close> when the promise of its task settles,
  up to the next \<open>await\<close>, the return, or the notification of \<open>Paused\<close> (line 232), after which
  line 233 is still to run. When \<open>String(err)\<close> throws, the exception leaves \<open>processLoop\<close>
  before anything is assigned to \<open>lastError\<close>: the activation is over.
\<close>

definition taskSettled :: "nat \<Rightarrow> outcome \<Rightarrow> queue_state \<Rightarrow> queue_state" where
  "taskSettled lid out s =
     (case out of
        Fulfilled \<Rightarrow> processLoop lid (s\<lparr>currentTaskKey := None\<rparr>)
      | Rejected err \<Rightarrow>
          let s1 = s\<lparr>currentTaskKey := None\<rparr> in
          if pauseOnError s1 then
            (case toError err of
               None \<Rightarrow> set_pc lid Returned s1
             | Some e \<Rightarrow>
                 let s2 = s1\<lparr>lastError := Some e\<rparr> in
                 if status s2 \<noteq> Paused
                 then yield (AfterPaused lid) (set_pc lid Running (setStatus Paused s2))
                 else awaitResume lid s2)
          else processLoop lid (s1\<lparr>currentTaskKey := None\<rparr>))"

text \<open>
  Lines 207-210 of \<open>startRunner\<close>: the version is captured, \<open>processLoop\<close> is called and
  runs up to its first \<open>await\<close> or its return, then \<open>this.runner\<close> is assigned. If
  \<open>processLoop\<close> has invoked a task or notified \<open>Idle\<close> on its way, the assignment waits for
  the task's synchronous part, respectively the callback, to return.
\<close>

definition launch :: "queue_state \<Rightarrow> queue_state" where
  "launch s =
     (let currentVersion = version s;
          lid = length (loops s);
          s1 = s\<lparr>loops := loops s @ [\<lparr>captured = currentVersion, pc = Running\<rparr>]\<rparr>;
          s2 = processLoop lid s1
      in if pc (loops s2 ! lid) = InTask \<or> notified s2 \<noteq> notified s1
         then yield (AssignRunner lid) s2
         else s2\<lparr>runner := Some lid\<rparr>)"

text \<open>\<open>startRunner\<close> (lines 200-211), up to the notification of \<open>Processing\<close>.\<close>

definition startRunner :: "queue_state \<Rightarrow> queue_state" where
  "startRunner s =
     (if runner s \<noteq> None then s
      else if isCancelled s \<or> length (queue s) = 0 then
        setStatus (if isCancelled s then Cancelled else Idle) s
      else if status s \<noteq> Processing then yield AfterProcessing (setStatus Processing s)
      else launch s)"

subsection \<open>Public operations\<close>

text \<open>Truthiness of \<open>dedupeKey?: string\<close>: \<open>undefined\<close> and the empty string are falsy.\<close>

definition truthy :: "string option \<Rightarrow> bool" where
  "truthy k = (k \<noteq> None \<and> k \<noteq> Some [])"

text \<open>Lines 140-141 of \<open>enqueue\<close>.\<close>

definition lastKey :: "queue_state \<Rightarrow> string option" where
  "lastKey s = (if length (queue s) > 0 then key (last (queue s)) else currentTaskKey s)"

text \<open>Lines 139-153 of \<open>enqueue\<close>: the dedupe test, the insertion, the start of the loop.\<close>

definition insertEntry :: "nat \<Rightarrow> position \<Rightarrow> string option \<Rightarrow> queue_state \<Rightarrow> queue_state" where
  "insertEntry t position dedupeKey s =
     (if position = End \<and> truthy dedupeKey \<and> lastKey s = dedupeKey then
        (if status s = Idle \<and> length (queue s) > 0 then startRunner s else s)
      else
        let s2 = (if position = Front
                  then s\<lparr>queue := \<lparr>task = t, key = dedupeKey\<rparr> # queue s\<rparr>
                  else s\<lparr>queue := queue s @ [\<lparr>task = t, key = dedupeKey\<rparr>]\<rparr>)
        in if status s2 = Idle then startRunner s2 else s2)"

text \<open>
  \<open>enqueue\<close> (lines 131-154). In a cancelled queue lines 134-136 run first; the rest runs
  when the notification of \<open>Idle\<close> has returned.
\<close>

definition enqueue :: "nat \<Rightarrow> position \<Rightarrow> string option \<Rightarrow> queue_state \<Rightarrow> queue_state" where
  "enqueue t position dedupeKey s =
     (if isCancelled s then
        yield (AfterResurrected t position dedupeKey)
          (s\<lparr>version := version s + 1, status := Idle, notified := notified s @ [Idle]\<rparr>)
      else insertEntry t position dedupeKey s)"

definition addTask :: "nat \<Rightarrow> string option \<Rightarrow> queue_state \<Rightarrow> queue_state" where
  "addTask t dedupeKey s = enqueue t End dedupeKey s"

definition addNextTask :: "nat \<Rightarrow> queue_state \<Rightarrow> queue_state" where
  "addNextTask t s = enqueue t Front None s"

definition pauseQueue :: "queue_state \<Rightarrow> queue_state" where
  "pauseQueue s = (if isProcessing s then setStatus Paused s else s)"

text \<open>\<open>resumeQueue\<close> (lines 166-174), up to the notification of \<open>Processing\<close>.\<close>

definition resumeQueue :: "queue_state \<Rightarrow> queue_state" where
  "resumeQueue s =
     (if isPaused s then yield AfterResumed (setStatus Processing (s\<lparr>lastError := None\<rparr>))
      else if status s = Idle \<and> length (queue s) > 0 then startRunner s
      else s)"

text \<open>\<open>cancelQueue\<close> (lines 179-187), up to the notification of \<open>Cancelled\<close>.\<close>

definition cancelQueue :: "queue_state \<Rightarrow> queue_state" where
  "cancelQueue s =
     (if isCancelled s then s else yield AfterCancelled (setStatus Cancelled s))"

definition clearQueue :: "queue_state \<Rightarrow> queue_state" where
  "clearQueue s =
     (let s1 = s\<lparr>queue := []\<rparr> in
      if \<not> isProcessing s1 \<and> \<not> isPaused s1 \<and> \<not> isCancelled s1
      then setStatus Idle (s1\<lparr>currentTaskKey := None\<rparr>)
      else s1)"

text \<open>What a method does when the callback, or the task, it has called returns.\<close>

fun resume :: "frame \<Rightarrow> queue_state \<Rightarrow> queue_state" where
  "resume AfterCancelled s =
     (callResumeResolve (s\<lparr>queue := [], currentTaskKey := None, version := version s + 1\<rparr>))
       \<lparr>resumeResolve := None\<rparr>"
| "resume AfterResumed s =
     (let s1 = (callResumeResolve s)\<lparr>resumeResolve := None\<rparr>
      in if status s1 = Idle \<and> length (queue s1) > 0 then startRunner s1 else s1)"
| "resume (AfterResurrected t position dedupeKey) s = insertEntry t position dedupeKey s"
| "resume AfterProcessing s = launch s"
| "resume (AfterPaused lid) s = awaitResume lid s"
| "resume (AssignRunner lid) s = s\<lparr>runner := Some lid\<rparr>"

section \<open>Runs of the queue\<close>

text \<open>
  What can happen to a queue, one uninterrupted piece of JavaScript at a time:
  \<^item> a call of a public method, which runs up to its end or to the first point where it
    calls out with code left to run. The call comes from the embedding program when the
    stack is empty, and from the callback or the task that is running otherwise;
  \<^item> \<open>Return\<close>: the callback, or the synchronous part of the task, that the innermost
    suspended method has called returns, and that method goes on;
  \<^item> \<open>Settle lid out\<close>: the task awaited by activation \<open>lid\<close> settles and the activation
    continues;
  \<^item> \<open>Wake lid\<close>: activation \<open>lid\<close>, whose resume promise has been resolved, continues;
  \<^item> \<open>Finally lid\<close>: the callback \<open>() => { this.runner = null }\<close>.
  The last three are promise reactions: they run only when no other code of the queue is
  running, that is when the stack is empty. An event that cannot happen in the state gives
  \<open>None\<close>. A callback that does not call the queue is an immediate \<open>Return\<close>.
\<close>

datatype event =
    AddTask nat "string option"
  | AddNextTask nat
  | PauseQueue
  | ResumeQueue
  | CancelQueue
  | ClearQueue
  | ClearLastError
  | Return
  | Settle nat outcome
  | Wake nat
  | Finally nat

fun step :: "event \<Rightarrow> queue_state \<Rightarrow> queue_state option" where
  "step (AddTask t k) s = Some (addTask t k s)"
| "step (AddNextTask t) s = Some (addNextTask t s)"
| "step PauseQueue s = Some (pauseQueue s)"
| "step ResumeQueue s = Some (resumeQueue s)"
| "step CancelQueue s = Some (cancelQueue s)"
| "step ClearQueue s = Some (clearQueue s)"
| "step ClearLastError s = Some (clearLastError s)"
| "step Return s =
     (case stack s of [] \<Rightarrow> None | f # fs \<Rightarrow> Some (resume f (s\<lparr>stack := fs\<rparr>)))"
| "step (Settle lid out) s =
     (if stack s = [] \<and> lid < length (loops s) \<and> pc (loops s ! lid) = InTask
      then Some (taskSettled lid out s) else None)"
| "step (Wake lid) s =
     (if stack s = [] \<and> lid < length (loops s) \<and> pc (loops s ! lid) = Ready
      then Some (processLoop lid s) else None)"
| "step (Finally lid) s =
     (if stack s = [] \<and> lid < length (loops s) \<and> pc (loops s ! lid) = Returned
      then Some ((set_pc lid Done s)\<lparr>runner := None\<rparr>) else None)"

fun run :: "event list \<Rightarrow> queue_state \<Rightarrow> queue_state option" where
  "run [] s = Some s"
| "run (e # es) s = (case step e s of None \<Rightarrow> None | Some s' \<Rightarrow> run es s')"

section \<open>Example states\<close>

text \<open>
  A queue without pause-on-error whose first task has fulfilled after \<open>pauseQueue\<close> was
  called: the activation is blocked on the resume promise, one entry is pending.
\<close>

definition blocked_example :: queue_state where
  "blocked_example =
     \<lparr>queue = [\<lparr>task = 2, key = None\<rparr>], status = Paused, runner = Some 0,
      resumeResolve = Some 0, lastError = None, pauseOnError = False, currentTaskKey = None,
      version = 0, notified = [Idle, Processing, Paused], started = [1],
      loops = [\<lparr>captured = 0, pc = Blocked\<rparr>], stack = []\<rparr>"

text \<open>
  A queue whose first task is in flight, with one entry pending; \<open>poe\<close> is the
  pause-on-error option.
\<close>

definition inflight_example :: "bool \<Rightarrow> queue_state" where
  "inflight_example poe =
     \<lparr>queue = [\<lparr>task = 2, key = None\<rparr>], status = Processing, runner = Some 0,
      resumeResolve = None, lastError = None, pauseOnError = poe, currentTaskKey = None,
      version = 0, notified = [Idle, Processing], started = [1],
      loops = [\<lparr>captured = 0, pc = InTask\<rparr>], stack = []\<rparr>"

text \<open>
  The same queue with pause-on-error, once the task in flight has thrown \<open>"boom"\<close> and the
  callback notified of \<open>Paused\<close> has returned.
\<close>

definition failed_example :: queue_state where
  "failed_example =
     \<lparr>queue = [\<lparr>task = 2, key = None\<rparr>], status = Paused, runner = Some 0,
      resumeResolve = Some 0, lastError = Some (Error ''boom''), pauseOnError = True,
      currentTaskKey = None, version = 0, notified = [Idle, Processing, Paused], started = [1],
      loops = [\<lparr>captured = 0, pc = Blocked\<rparr>], stack = []\<rparr>"

text \<open>
  A queue that is \<open>Idle\<close> with work pending and no runner: task 1 (key \<open>k\<close>) was submitted
  after the loop had set \<open>Idle\<close> and before its \<open>.finally\<close> callback cleared \<open>runner\<close>.
\<close>

definition stuck_example :: queue_state where
  "stuck_example =
     \<lparr>queue = [\<lparr>task = 1, key = Some ''k''\<rparr>], status = Idle, runner = None,
      resumeResolve = None, lastError = None, pauseOnError = False, currentTaskKey = None,
      version = 0, notified = [Idle, Processing, Idle], started = [0],
      loops = [\<lparr>captured = 0, pc = Done\<rparr>], stack = []\<rparr>"

text \<open>
  A queue with pause-on-error that was cancelled while its first task was in flight: the
  activation captured generation 0, the live generation is 1.
\<close>

definition stale_example :: queue_state where
  "stale_example =
     \<lparr>queue = [], status = Cancelled, runner = Some 0, resumeResolve = None, lastError = None,
      pauseOnError = True, currentTaskKey = None, version = 1,
      notified = [Idle, Processing, Cancelled], started = [1],
      loops = [\<lparr>captured = 0, pc = InTask\<rparr>], stack = []\<rparr>"


text \<open>
  A queue whose task in flight and whose only pending entry were both submitted with the
  empty string as dedupe key.
\<close>

definition empty_key_example :: queue_state where
  "empty_key_example =
     \<lparr>queue = [\<lparr>task = 2, key = Some ''''\<rparr>], status = Processing, runner = Some 0,
      resumeResolve = None, lastError = None, pauseOnError = False,
      currentTaskKey = Some '''', version = 0, notified = [Idle, Processing], started = [1],
      loops = [\<lparr>captured = 0, pc = InTask\<rparr>], stack = []\<rparr>"

text \<open>
  A queue with two activations blocked on a resume promise. Task 1 cancelled the queue and
  submitted task 2 in its synchronous part, which started a second activation; then task 1
  threw \<open>"boom"\<close> (its activation stored its resolver and blocked), and task 2 fulfilled (its
  activation found the queue \<open>Paused\<close>, stored its own resolver over the first and blocked).
\<close>

definition two_blocked_example :: queue_state where
  "two_blocked_example =
     \<lparr>queue = [], status = Paused, runner = Some 0, resumeResolve = Some 1,
      lastError = Some (Error ''boom''), pauseOnError = True, currentTaskKey = None,
      version = 2, notified = [Idle, Processing, Cancelled, Idle, Processing, Paused],
      started = [1, 2],
      loops = [\<lparr>captured = 0, pc = Blocked\<rparr>, \<lparr>captured = 2, pc = Blocked\<rparr>],
      stack = []\<rparr>"

text \<open>
  A queue that was cancelled while task 1 was in flight and to which task 2 was submitted
  before task 1 finished, once task 1 has finished: \<open>Idle\<close>, task 2 pending, no runner, no
  activation left.
\<close>

definition stranded_example :: queue_state where
  "stranded_example =
     \<lparr>queue = [\<lparr>task = 2, key = None\<rparr>], status = Idle, runner = None, resumeResolve = None,
      lastError = None, pauseOnError = False, currentTaskKey = None, version = 2,
      notified = [Idle, Processing, Cancelled, Idle], started = [1],
      loops = [\<lparr>captured = 0, pc = Done\<rparr>], stack = []\<rparr>"

text \<open>
  A queue with pause-on-error whose callback has called \<open>resumeQueue\<close> when notified of the
  \<open>Paused\<close> that followed the failure of task 1: \<open>Processing\<close>, the activation blocked.
\<close>

definition lost_wakeup_example :: queue_state where
  "lost_wakeup_example =
     \<lparr>queue = [\<lparr>task = 2, key = None\<rparr>], status = Processing, runner = Some 0,
      resumeResolve = Some 0, lastError = None, pauseOnError = True, currentTaskKey = None,
      version = 0, notified = [Idle, Processing, Paused, Processing], started = [1],
      loops = [\<lparr>captured = 0, pc = Blocked\<rparr>], stack = []\<rparr>"

text \<open>
  A queue that is \<open>Idle\<close> with no runner while task 1 is still in flight: task 1 cancelled the
  queue and submitted task 2 in its synchronous part, and the activation started for task 2
  has finished.
\<close>

definition overlap_example :: queue_state where
  "overlap_example =
     \<lparr>queue = [], status = Idle, runner = None, resumeResolve = None, lastError = None,
      pauseOnError = False, currentTaskKey = None, version = 2,
      notified = [Idle, Processing, Cancelled, Idle, Processing, Idle], started = [1, 2],
      loops = [\<lparr>captured = 0, pc = InTask\<rparr>, \<lparr>captured = 2, pc = Done\<rparr>], stack = []\<rparr>"

section \<open>Auxiliary notions for the properties\<close>

text \<open>
  The notifications fired between two states, and the statement that they are exactly the
  changes of the status between them: each one differs from the status before it, and the
  last one is the status reached (none, if the status is the same).
\<close>

definition fired :: "queue_state \<Rightarrow> queue_state \<Rightarrow> QueueStatus list" where
  "fired s s' = drop (length (notified s)) (notified s')"

definition notifies_changes :: "queue_state \<Rightarrow> queue_state \<Rightarrow> bool" where
  "notifies_changes s s' =
     (notified s' = notified s @ fired s s' \<and>
      distinct_adj (status s # fired s s') \<and>
      last (status s # fired s s') = status s')"








text \<open>
  What holds along runs of submissions: the generation stays 0, the queue is never
  \<open>Cancelled\<close>, and the suspended methods are \<open>startRunner\<close> and the \<open>catch\<close> block of an
  existing activation.
\<close>

definition plain_frame :: "frame \<Rightarrow> bool" where
  "plain_frame f =
     (case f of AfterProcessing \<Rightarrow> True | AssignRunner _ \<Rightarrow> True | AfterPaused _ \<Rightarrow> True
      | _ \<Rightarrow> False)"

definition submit_inv :: "queue_state \<Rightarrow> bool" where
  "submit_inv s =
     (version s = 0 \<and> status s \<noteq> Cancelled \<and>
      (\<forall>i < length (loops s). captured (loops s ! i) = 0) \<and>
      (\<forall>f \<in> set (stack s).
         plain_frame f \<and> (\<forall>lid. f = AfterPaused lid \<longrightarrow> lid < length (loops s))))"

text \<open>
  An activation that has not returned. Along runs of submissions in which no rejection
  value fails to convert, whenever the status is not \<open>Idle\<close> an activation is live or
  \<open>startRunner\<close> is about to launch one for pending work.
\<close>

definition live :: "loop_pc \<Rightarrow> bool" where
  "live p = (p = Running \<or> p = InTask \<or> p = Blocked \<or> p = Ready)"

definition has_live :: "queue_state \<Rightarrow> bool" where
  "has_live s = (\<exists>i < length (loops s). live (pc (loops s ! i)))"


text \<open>The tasks started so far, followed by the tasks pending.\<close>

definition work :: "queue_state \<Rightarrow> nat list" where
  "work s = started s @ map task (queue s)"



section \<open>Properties\<close>

lemmas status_defs = isProcessing_def isPaused_def isCancelled_def isIdle_def

lemmas queue_defs =
  constructor_def setStatus_def yield_def status_defs queue_size_def lastTaskError_def
  clearLastError_def set_pc_def callResumeResolve_def awaitResume_def loopExit_def
  processLoop_def toError_def taskSettled_def launch_def startRunner_def truthy_def lastKey_def
  insertEntry_def enqueue_def addTask_def addNextTask_def pauseQueue_def resumeQueue_def
  cancelQueue_def clearQueue_def Let_def

subsection \<open>The primitive steps, field by field\<close>

lemma yield_fields [simp]:
  "queue (yield f s) = queue s" "status (yield f s) = status s" "runner (yield f s) = runner s"
  "resumeResolve (yield f s) = resumeResolve s" "lastError (yield f s) = lastError s"
  "pauseOnError (yield f s) = pauseOnError s" "currentTaskKey (yield f s) = currentTaskKey s"
  "version (yield f s) = version s" "notified (yield f s) = notified s"
  "started (yield f s) = started s" "loops (yield f s) = loops s"
  "stack (yield f s) = f # stack s"
  by (simp_all add: yield_def)

lemma setStatus_fields [simp]:
  "queue (setStatus n s) = queue s" "status (setStatus n s) = n"
  "runner (setStatus n s) = runner s"
  "resumeResolve (setStatus n s) = resumeResolve s" "lastError (setStatus n s) = lastError s"
  "pauseOnError (setStatus n s) = pauseOnError s"
  "currentTaskKey (setStatus n s) = currentTaskKey s"
  "version (setStatus n s) = version s"
  "started (setStatus n s) = started s" "loops (setStatus n s) = loops s"
  "stack (setStatus n s) = stack s"
  by (simp_all add: setStatus_def)

lemma notified_setStatus:
  "notified (setStatus n s) = (if status s = n then notified s else notified s @ [n])"
  by (simp add: setStatus_def)

lemma set_pc_fields [simp]:
  "queue (set_pc lid p s) = queue s" "status (set_pc lid p s) = status s"
  "runner (set_pc lid p s) = runner s"
  "resumeResolve (set_pc lid p s) = resumeResolve s" "lastError (set_pc lid p s) = lastError s"
  "pauseOnError (set_pc lid p s) = pauseOnError s"
  "currentTaskKey (set_pc lid p s) = currentTaskKey s"
  "version (set_pc lid p s) = version s" "notified (set_pc lid p s) = notified s"
  "started (set_pc lid p s) = started s" "stack (set_pc lid p s) = stack s"
  "length (loops (set_pc lid p s)) = length (loops s)"
  by (simp_all add: set_pc_def)

lemma callResumeResolve_fields [simp]:
  "queue (callResumeResolve s) = queue s" "status (callResumeResolve s) = status s"
  "runner (callResumeResolve s) = runner s"
  "resumeResolve (callResumeResolve s) = resumeResolve s"
  "lastError (callResumeResolve s) = lastError s"
  "pauseOnError (callResumeResolve s) = pauseOnError s"
  "currentTaskKey (callResumeResolve s) = currentTaskKey s"
  "version (callResumeResolve s) = version s" "notified (callResumeResolve s) = notified s"
  "started (callResumeResolve s) = started s" "stack (callResumeResolve s) = stack s"
  "length (loops (callResumeResolve s)) = length (loops s)"
  by (simp_all add: callResumeResolve_def split: option.splits)

lemma awaitResume_fields [simp]:
  "queue (awaitResume lid s) = queue s" "status (awaitResume lid s) = status s"
  "runner (awaitResume lid s) = runner s"
  "resumeResolve (awaitResume lid s) = Some lid" "lastError (awaitResume lid s) = lastError s"
  "pauseOnError (awaitResume lid s) = pauseOnError s"
  "currentTaskKey (awaitResume lid s) = currentTaskKey s"
  "version (awaitResume lid s) = version s" "notified (awaitResume lid s) = notified s"
  "started (awaitResume lid s) = started s" "stack (awaitResume lid s) = stack s"
  "length (loops (awaitResume lid s)) = length (loops s)"
  by (simp_all add: awaitResume_def)

subsection \<open>Status notifications\<close>

lemma nc_iff:
  "notifies_changes s s' \<longleftrightarrow>
     (\<exists>ns. notified s' = notified s @ ns \<and> distinct_adj (status s # ns) \<and> last (status s # ns) = status s')"
proof
  assume "notifies_changes s s'"
  then show "\<exists>ns. notified s' = notified s @ ns \<and> distinct_adj (status s # ns) \<and> last (status s # ns) = status s'"
    unfolding notifies_changes_def by (intro exI[of _ "fired s s'"])
next
  assume "\<exists>ns. notified s' = notified s @ ns \<and> distinct_adj (status s # ns) \<and> last (status s # ns) = status s'"
  then obtain ns where ns: "notified s' = notified s @ ns" "distinct_adj (status s # ns)"
    "last (status s # ns) = status s'" by blast
  have "fired s s' = ns" by (simp add: fired_def ns(1))
  with ns show "notifies_changes s s'" unfolding notifies_changes_def by simp
qed

lemma nc_same: "status s' = status s \<Longrightarrow> notified s' = notified s \<Longrightarrow> notifies_changes s s'"
  unfolding nc_iff by simp

lemma nc_trans:
  assumes "notifies_changes s s1" "notifies_changes s1 s2"
  shows "notifies_changes s s2"
proof -
  from assms(1) obtain ns where ns: "notified s1 = notified s @ ns" "distinct_adj (status s # ns)"
    "last (status s # ns) = status s1" unfolding nc_iff by blast
  from assms(2) obtain ms where ms: "notified s2 = notified s1 @ ms" "distinct_adj (status s1 # ms)"
    "last (status s1 # ms) = status s2" unfolding nc_iff by blast
  have a: "distinct_adj ((status s # ns) @ ms)"
  proof (cases ms)
    case Nil
    then show ?thesis using ns(2) by simp
  next
    case (Cons m ms')
    with ms(2) have "status s1 \<noteq> m" "distinct_adj (m # ms')" by simp_all
    moreover have "hd ms = m" "ms \<noteq> []" using Cons by simp_all
    ultimately have "distinct_adj (status s # ns) \<and> distinct_adj ms \<and>
        (status s # ns = [] \<or> ms = [] \<or> last (status s # ns) \<noteq> hd ms)"
      using ns(2) Cons unfolding ns(3) by simp
    then show ?thesis unfolding distinct_adj_append_iff .
  qed
  have b: "last ((status s # ns) @ ms) = status s2"
  proof (cases "ms = []")
    case True
    then show ?thesis using ns(3) ms(3) by simp
  next
    case False
    then show ?thesis using ms(3) by simp
  qed
  have c: "notified s2 = notified s @ (ns @ ms)" using ns(1) ms(1) by simp
  show ?thesis unfolding nc_iff
  proof (intro exI conjI)
    show "notified s2 = notified s @ (ns @ ms)" by (fact c)
    show "distinct_adj (status s # ns @ ms)" using a by simp
    show "last (status s # ns @ ms) = status s2" using b by simp
  qed
qed

lemma nc_setStatus: "notifies_changes s (setStatus n s)"
  unfolding nc_iff setStatus_def by auto

lemma nc_then:
  "notifies_changes s s1 \<Longrightarrow> status s' = status s1 \<Longrightarrow> notified s' = notified s1 \<Longrightarrow>
   notifies_changes s s'"
  unfolding nc_iff by simp

lemma nc_from:
  "notifies_changes s1 s' \<Longrightarrow> status s1 = status s \<Longrightarrow> notified s1 = notified s \<Longrightarrow>
   notifies_changes s s'"
  unfolding nc_iff by simp

lemma nc_loopExit: "notifies_changes s (loopExit lid s)"
proof -
  have "notifies_changes s (setStatus Idle (set_pc lid Returned s))"
    by (rule nc_from[OF nc_setStatus]) simp_all
  then show ?thesis by (simp add: loopExit_def nc_same)
qed

lemma nc_processLoop: "notifies_changes s (processLoop lid s)"
proof -
  have "notifies_changes s (loopExit lid (s\<lparr>queue := q\<rparr>))" for q
    by (rule nc_from[OF nc_loopExit]) simp_all
  then show ?thesis
    by (simp add: processLoop_def Let_def nc_loopExit nc_same split: list.splits)
qed

lemma nc_launch: "notifies_changes s (launch s)"
proof -
  let ?s1 = "s\<lparr>loops := loops s @ [\<lparr>captured = version s, pc = Running\<rparr>]\<rparr>"
  have 1: "notifies_changes s (processLoop (length (loops s)) ?s1)"
    by (rule nc_from[OF nc_processLoop]) simp_all
  show ?thesis
    unfolding launch_def Let_def by (auto intro: nc_then[OF 1])
qed

lemma nc_startRunner: "notifies_changes s (startRunner s)"
proof -
  have "notifies_changes s (yield AfterProcessing (setStatus Processing s))"
    by (rule nc_then[OF nc_setStatus]) simp_all
  then show ?thesis
    by (simp add: startRunner_def nc_setStatus nc_same nc_launch)
qed

lemma nc_insertEntry: "notifies_changes s (insertEntry t p k s)"
proof -
  have "notifies_changes s (s\<lparr>queue := q\<rparr>)" for q by (rule nc_same) simp_all
  moreover have "notifies_changes s (startRunner (s\<lparr>queue := q\<rparr>))" for q
    by (rule nc_from[OF nc_startRunner]) simp_all
  ultimately show ?thesis
    by (simp add: insertEntry_def Let_def nc_startRunner nc_same)
qed

lemma nc_enqueue: "notifies_changes s (enqueue t p k s)"
proof (cases "isCancelled s")
  case True
  then have "notifies_changes s (yield (AfterResurrected t p k)
          (s\<lparr>version := version s + 1, status := Idle, notified := notified s @ [Idle]\<rparr>))"
    unfolding nc_iff isCancelled_def by simp
  then show ?thesis using True by (simp add: enqueue_def)
next
  case False
  then show ?thesis by (simp add: enqueue_def nc_insertEntry)
qed

lemma nc_taskSettled: "notifies_changes s (taskSettled lid out s)"
proof (cases out)
  case Fulfilled
  have "notifies_changes s (processLoop lid (s\<lparr>currentTaskKey := None\<rparr>))"
    by (rule nc_from[OF nc_processLoop]) simp_all
  then show ?thesis using Fulfilled by (simp add: taskSettled_def)
next
  case (Rejected err)
  have 1: "notifies_changes s (processLoop lid (s\<lparr>currentTaskKey := None\<rparr>))"
    by (rule nc_from[OF nc_processLoop]) simp_all
  have 2: "notifies_changes s
     (yield (AfterPaused lid) (set_pc lid Running (setStatus Paused (s\<lparr>currentTaskKey := None, lastError := Some e\<rparr>))))"
    for e
  proof -
    have "notifies_changes s (setStatus Paused (s\<lparr>currentTaskKey := None, lastError := Some e\<rparr>))"
      by (rule nc_from[OF nc_setStatus]) simp_all
    then show ?thesis by (rule nc_then) simp_all
  qed
  show ?thesis using Rejected 1 2
    by (simp add: taskSettled_def Let_def nc_same split: option.splits)
qed

lemma nc_pauseQueue: "notifies_changes s (pauseQueue s)"
  by (simp add: pauseQueue_def nc_setStatus nc_same)

lemma nc_resumeQueue: "notifies_changes s (resumeQueue s)"
proof -
  have "notifies_changes s (setStatus Processing (s\<lparr>lastError := None\<rparr>))"
    by (rule nc_from[OF nc_setStatus]) simp_all
  then have "notifies_changes s (yield AfterResumed (setStatus Processing (s\<lparr>lastError := None\<rparr>)))"
    by (rule nc_then) simp_all
  then show ?thesis
    by (simp add: resumeQueue_def nc_startRunner nc_same)
qed

lemma nc_cancelQueue: "notifies_changes s (cancelQueue s)"
proof -
  have "notifies_changes s (yield AfterCancelled (setStatus Cancelled s))"
    by (rule nc_then[OF nc_setStatus]) simp_all
  then show ?thesis by (simp add: cancelQueue_def nc_same)
qed

lemma nc_clearQueue: "notifies_changes s (clearQueue s)"
proof -
  have "notifies_changes s (setStatus Idle (s\<lparr>queue := [], currentTaskKey := None\<rparr>))"
    by (rule nc_from[OF nc_setStatus]) simp_all
  then show ?thesis by (simp add: clearQueue_def Let_def nc_same)
qed

lemma nc_resume: "notifies_changes s (resume f s)"
proof (cases f)
  case AfterCancelled
  then show ?thesis by (simp add: nc_same)
next
  case AfterResumed
  let ?s1 = "(callResumeResolve s)\<lparr>resumeResolve := None\<rparr>"
  have "notifies_changes s (startRunner ?s1)" by (rule nc_from[OF nc_startRunner]) simp_all
  then show ?thesis using AfterResumed by (simp add: Let_def nc_same)
next
  case (AfterResurrected t p k)
  then show ?thesis by (simp add: nc_insertEntry)
next
  case AfterProcessing
  then show ?thesis by (simp add: nc_launch)
next
  case (AfterPaused lid)
  then show ?thesis by (simp add: nc_same)
next
  case (AssignRunner lid)
  then show ?thesis by (simp add: nc_same)
qed

lemma nc_step: "step e s = Some s' \<Longrightarrow> notifies_changes s s'"
proof (cases e)
  case (AddTask t k)
  then show "step e s = Some s' \<Longrightarrow> ?thesis" using nc_enqueue by (auto simp: addTask_def)
next
  case (AddNextTask t)
  then show "step e s = Some s' \<Longrightarrow> ?thesis" using nc_enqueue by (auto simp: addNextTask_def)
next
  case PauseQueue
  then show "step e s = Some s' \<Longrightarrow> ?thesis" using nc_pauseQueue by auto
next
  case ResumeQueue
  then show "step e s = Some s' \<Longrightarrow> ?thesis" using nc_resumeQueue by auto
next
  case CancelQueue
  then show "step e s = Some s' \<Longrightarrow> ?thesis" using nc_cancelQueue by auto
next
  case ClearQueue
  then show "step e s = Some s' \<Longrightarrow> ?thesis" using nc_clearQueue by auto
next
  case ClearLastError
  then show "step e s = Some s' \<Longrightarrow> ?thesis" by (auto simp: clearLastError_def intro: nc_same)
next
  case Return
  assume "step e s = Some s'"
  then obtain f fs where "stack s = f # fs" "s' = resume f (s\<lparr>stack := fs\<rparr>)"
    using Return by (auto split: list.splits)
  then show ?thesis using nc_from[OF nc_resume[of "s\<lparr>stack := fs\<rparr>" f]] by simp
next
  case (Settle lid out)
  then show "step e s = Some s' \<Longrightarrow> ?thesis" using nc_taskSettled by (auto split: if_splits)
next
  case (Wake lid)
  then show "step e s = Some s' \<Longrightarrow> ?thesis" using nc_processLoop by (auto split: if_splits)
next
  case (Finally lid)
  then show "step e s = Some s' \<Longrightarrow> ?thesis" by (auto split: if_splits intro: nc_same)
qed

lemma nc_run: "run evs s = Some s' \<Longrightarrow> notifies_changes s s'"
proof (induction evs arbitrary: s)
  case Nil
  then show ?case by (simp add: nc_same)
next
  case (Cons e evs)
  then obtain s1 where "step e s = Some s1" "run evs s1 = Some s'"
    by (auto split: option.splits)
  then show ?case using Cons.IH nc_step nc_trans by blast
qed

text \<open>
  Claim C2. In every run of public operations, returns of callbacks and loop steps from
  construction, the callback is invoked exactly when the status changes: the log of
  invocations is the initial \<open>Idle\<close> of the constructor followed by the changes of the
  status, it never holds the same status twice in a row, its last element is the current
  status, and every further step appends exactly the changes of status it makes. Calls made
  by the callback itself, or by a task in its synchronous part, are part of the runs.
\<close>

theorem onStatusChange_exactly_on_change:
  assumes "run evs (constructor poe) = Some s"
  shows "notified s = Idle # fired (constructor poe) s \<and>
         distinct_adj (notified s) \<and>
         last (notified s) = status s \<and>
         (\<forall>e s'. step e s = Some s' \<longrightarrow> notifies_changes s s')"
proof -
  have "notifies_changes (constructor poe) s" using assms by (rule nc_run)
  then have *: "notified s = [Idle] @ fired (constructor poe) s"
    "distinct_adj (Idle # fired (constructor poe) s)"
    "last (Idle # fired (constructor poe) s) = status s"
    unfolding notifies_changes_def by (simp_all add: constructor_def)
  have 1: "notified s = Idle # fired (constructor poe) s" using *(1) by simp
  have 2: "distinct_adj (notified s)" using * by simp
  have 3: "last (notified s) = status s" using * by simp
  have 4: "\<forall>e s'. step e s = Some s' \<longrightarrow> notifies_changes s s'"
    using nc_step by blast
  show ?thesis using 1 2 3 4 by blast
qed

subsection \<open>The last-error slot\<close>

lemma lastError_loopExit [simp]: "lastError (loopExit lid s) = lastError s"
  by (simp add: loopExit_def)

lemma lastError_processLoop [simp]: "lastError (processLoop lid s) = lastError s"
  by (simp add: processLoop_def Let_def split: list.splits)

lemma lastError_launch [simp]: "lastError (launch s) = lastError s"
  by (simp add: launch_def Let_def)

lemma lastError_startRunner [simp]: "lastError (startRunner s) = lastError s"
  by (simp add: startRunner_def)

lemma lastError_insertEntry [simp]: "lastError (insertEntry t p k s) = lastError s"
  by (simp add: insertEntry_def Let_def)

lemma lastError_enqueue [simp]: "lastError (enqueue t p k s) = lastError s"
  by (simp add: enqueue_def)

lemma lastError_pauseQueue [simp]: "lastError (pauseQueue s) = lastError s"
  by (simp add: pauseQueue_def)

lemma lastError_cancelQueue [simp]: "lastError (cancelQueue s) = lastError s"
  by (simp add: cancelQueue_def)

lemma lastError_clearQueue [simp]: "lastError (clearQueue s) = lastError s"
  by (simp add: clearQueue_def Let_def)

lemma lastError_resume [simp]: "lastError (resume f s) = lastError s"
  by (cases f) (simp_all add: Let_def)

lemma lastError_resumeQueue:
  "lastError (resumeQueue s) = (if status s = Paused then None else lastError s)"
  by (simp add: resumeQueue_def isPaused_def)

lemma lastError_taskSettled:
  "lastError (taskSettled lid out s) =
     (case out of
        Fulfilled \<Rightarrow> lastError s
      | Rejected err \<Rightarrow>
          if pauseOnError s then (case toError err of None \<Rightarrow> lastError s | Some e \<Rightarrow> Some e)
          else lastError s)"
  by (simp add: taskSettled_def Let_def split: outcome.splits option.splits)

text \<open>
  Claim C10. \<open>cancelQueue\<close> (its part before the notification and its part after it) and
  \<open>clearQueue\<close> leave the last-error slot unchanged. Whenever a step changes the slot,
  either it becomes \<open>null\<close> and the step is \<open>clearLastError\<close> or a \<open>resumeQueue\<close> made while
  \<open>Paused\<close>, or it becomes the captured error of a task that has just failed while
  pause-on-error is enabled. No other operation, no return of a callback and no other loop
  step touches it.
\<close>

theorem lastError_frame:
  "lastTaskError (cancelQueue s) = lastTaskError s \<and>
   lastTaskError (resume AfterCancelled s) = lastTaskError s \<and>
   lastTaskError (clearQueue s) = lastTaskError s \<and>
   lastTaskError (clearLastError s) = None \<and>
   lastTaskError (resumeQueue s) = (if status s = Paused then None else lastTaskError s) \<and>
   (\<forall>e s'. step e s = Some s' \<and> lastTaskError s' \<noteq> lastTaskError s \<longrightarrow>
      (lastTaskError s' = None \<and> (e = ClearLastError \<or> (e = ResumeQueue \<and> status s = Paused))) \<or>
      (\<exists>lid err e'. e = Settle lid (Rejected err) \<and> pauseOnError s \<and> toError err = Some e' \<and>
                  lastTaskError s' = Some e'))"
proof (intro conjI allI impI)
  fix e s'
  assume a: "step e s = Some s' \<and> lastTaskError s' \<noteq> lastTaskError s"
  show "(lastTaskError s' = None \<and> (e = ClearLastError \<or> (e = ResumeQueue \<and> status s = Paused))) \<or>
      (\<exists>lid err e'. e = Settle lid (Rejected err) \<and> pauseOnError s \<and> toError err = Some e' \<and>
                  lastTaskError s' = Some e')"
  proof (cases e)
    case (Settle lid out)
    with a show ?thesis
      by (cases out)
         (auto simp: lastTaskError_def lastError_taskSettled split: if_splits option.splits)
  next
    case ResumeQueue
    with a show ?thesis by (auto simp: lastTaskError_def lastError_resumeQueue split: if_splits)
  next
    case Return
    with a show ?thesis by (auto simp: lastTaskError_def split: list.splits)
  qed (use a in \<open>auto simp: lastTaskError_def addTask_def addNextTask_def clearLastError_def
         split: if_splits\<close>)
qed (simp_all add: lastTaskError_def lastError_resumeQueue clearLastError_def)

subsection \<open>The pause-on-error option is fixed at construction\<close>

lemma pauseOnError_loopExit [simp]: "pauseOnError (loopExit lid s) = pauseOnError s"
  by (simp add: loopExit_def)

lemma pauseOnError_processLoop [simp]: "pauseOnError (processLoop lid s) = pauseOnError s"
  by (simp add: processLoop_def Let_def split: list.splits)

lemma pauseOnError_launch [simp]: "pauseOnError (launch s) = pauseOnError s"
  by (simp add: launch_def Let_def)

lemma pauseOnError_startRunner [simp]: "pauseOnError (startRunner s) = pauseOnError s"
  by (simp add: startRunner_def)

lemma pauseOnError_insertEntry [simp]: "pauseOnError (insertEntry t p k s) = pauseOnError s"
  by (simp add: insertEntry_def Let_def)

lemma pauseOnError_enqueue [simp]: "pauseOnError (enqueue t p k s) = pauseOnError s"
  by (simp add: enqueue_def)

lemma pauseOnError_pauseQueue [simp]: "pauseOnError (pauseQueue s) = pauseOnError s"
  by (simp add: pauseQueue_def)

lemma pauseOnError_cancelQueue [simp]: "pauseOnError (cancelQueue s) = pauseOnError s"
  by (simp add: cancelQueue_def)

lemma pauseOnError_clearQueue [simp]: "pauseOnError (clearQueue s) = pauseOnError s"
  by (simp add: clearQueue_def Let_def)

lemma pauseOnError_resumeQueue [simp]: "pauseOnError (resumeQueue s) = pauseOnError s"
  by (simp add: resumeQueue_def)

lemma pauseOnError_resume [simp]: "pauseOnError (resume f s) = pauseOnError s"
  by (cases f) (simp_all add: Let_def)

lemma pauseOnError_taskSettled [simp]: "pauseOnError (taskSettled lid out s) = pauseOnError s"
  by (simp add: taskSettled_def Let_def split: outcome.splits option.splits)

lemma pauseOnError_step: "step e s = Some s' \<Longrightarrow> pauseOnError s' = pauseOnError s"
  by (cases e)
     (auto simp: addTask_def addNextTask_def clearLastError_def split: if_splits list.splits)

lemma pauseOnError_run: "run evs s = Some s' \<Longrightarrow> pauseOnError s' = pauseOnError s"
proof (induction evs arbitrary: s)
  case Nil
  then show ?case by simp
next
  case (Cons e evs)
  then obtain s1 where "step e s = Some s1" "run evs s1 = Some s'"
    by (auto split: option.splits)
  then show ?case using Cons.IH pauseOnError_step by fastforce
qed

subsection \<open>The example states are reachable\<close>

lemma blocked_example_reachable:
  "run [AddTask 1 None, Return, Return, AddTask 2 None, PauseQueue, Settle 0 Fulfilled]
     (constructor False) = Some blocked_example"
  by (simp add: blocked_example_def queue_defs)

lemma inflight_example_reachable:
  "run [AddTask 1 None, Return, Return, AddTask 2 None] (constructor poe) =
     Some (inflight_example poe)"
  by (simp add: inflight_example_def queue_defs)

lemma stale_example_reachable:
  "run [AddTask 1 None, Return, Return, AddTask 2 None, CancelQueue, Return] (constructor True) =
     Some stale_example"
  by (simp add: stale_example_def queue_defs)


theorem onStatusChange_exactly_on_change_witness:
  "run [AddTask 1 None, Return, Return, AddTask 2 None, PauseQueue, Settle 0 Fulfilled]
     (constructor False) = Some blocked_example \<and>
   notified blocked_example = Idle # fired (constructor False) blocked_example \<and>
   distinct_adj (notified blocked_example) \<and>
   last (notified blocked_example) = status blocked_example \<and>
   step ResumeQueue blocked_example = Some (resumeQueue blocked_example) \<and>
   notifies_changes blocked_example (resumeQueue blocked_example) \<and>
   notified (resumeQueue blocked_example) = [Idle, Processing, Paused, Processing]"
proof -
  have st: "step ResumeQueue blocked_example = Some (resumeQueue blocked_example)" by simp
  have n: "notified (resumeQueue blocked_example) = [Idle, Processing, Paused, Processing]"
    by (simp add: blocked_example_def queue_defs)
  show ?thesis
    using onStatusChange_exactly_on_change [OF blocked_example_reachable] st n
      blocked_example_reachable
    by blast
qed

theorem lastError_frame_witness:
  "lastTaskError failed_example = Some (Error ''boom'') \<and>
   status failed_example = Paused \<and>
   lastTaskError (cancelQueue failed_example) = Some (Error ''boom'') \<and>
   lastTaskError (clearQueue failed_example) = Some (Error ''boom'') \<and>
   step ResumeQueue failed_example = Some (resumeQueue failed_example) \<and>
   lastTaskError (resumeQueue failed_example) = None \<and>
   run [Settle 0 (Rejected (NonError (Some ''boom''))), Return] (inflight_example True) =
     Some failed_example \<and>
   lastTaskError (inflight_example True) = None \<and>
   pauseOnError (inflight_example True)"
proof -
  have a: "lastTaskError failed_example = Some (Error ''boom'')" "status failed_example = Paused"
    by (simp_all add: failed_example_def lastTaskError_def)
  have b: "step ResumeQueue failed_example = Some (resumeQueue failed_example)" by simp
  have c: "run [Settle 0 (Rejected (NonError (Some ''boom''))), Return] (inflight_example True) =
     Some failed_example"
    by (simp add: inflight_example_def failed_example_def queue_defs)
  have d: "lastTaskError (inflight_example True) = None" "pauseOnError (inflight_example True)"
    by (simp_all add: inflight_example_def lastTaskError_def)
  show ?thesis
    using lastError_frame [of failed_example] a b c d by simp
qed

subsection \<open>Insertion and adjacent-duplicate suppression\<close>

lemma startRunner_idle_fields:
  assumes "status s \<noteq> Processing"
  shows "queue (startRunner s) = queue s" "started (startRunner s) = started s"
    "loops (startRunner s) = loops s" "version (startRunner s) = version s"
    "currentTaskKey (startRunner s) = currentTaskKey s"
  using assms by (simp_all add: startRunner_def)


lemma insertEntry_End_inserted:
  assumes "\<not> (truthy k \<and> lastKey s = k)"
  shows "queue (insertEntry t End k s) = queue s @ [\<lparr>task = t, key = k\<rparr>]"
    and "started (insertEntry t End k s) = started s"
    and "loops (insertEntry t End k s) = loops s"
  using assms by (auto simp: insertEntry_def Let_def startRunner_idle_fields)


text \<open>
  Claim C9. An \<open>addTask\<close> whose dedupe key is absent or the empty string always inserts its
  entry at the back, whatever keys the last pending entry and the entry in flight carry:
  lines 139-153 append the entry to the pending collection of the state they run in and
  start no task themselves. In a queue that is not \<open>Cancelled\<close> they are all of \<open>addTask\<close>;
  in a \<open>Cancelled\<close> queue they run when the notification of \<open>Idle\<close> has returned, in
  whatever state \<open>s'\<close> the callback has left.
\<close>

theorem falsy_key_always_inserted:
  assumes "dedupeKey = None \<or> dedupeKey = Some []"
  shows "queue (insertEntry t End dedupeKey s) = queue s @ [\<lparr>task = t, key = dedupeKey\<rparr>] \<and>
         started (insertEntry t End dedupeKey s) = started s \<and>
         (status s \<noteq> Cancelled \<longrightarrow> addTask t dedupeKey s = insertEntry t End dedupeKey s) \<and>
         (status s = Cancelled \<longrightarrow>
            addTask t dedupeKey s =
              yield (AfterResurrected t End dedupeKey)
                (s\<lparr>version := version s + 1, status := Idle, notified := notified s @ [Idle]\<rparr>)) \<and>
         queue (resume (AfterResurrected t End dedupeKey) s') =
           queue s' @ [\<lparr>task = t, key = dedupeKey\<rparr>] \<and>
         started (resume (AfterResurrected t End dedupeKey) s') = started s'"
proof -
  have n: "\<not> (truthy dedupeKey \<and> lastKey x = dedupeKey)" for x
    using assms by (auto simp: truthy_def)
  show ?thesis
    using insertEntry_End_inserted(1,2)[OF n]
    by (simp add: addTask_def enqueue_def isCancelled_def)
qed




lemma empty_key_example_reachable:
  "run [AddTask 1 (Some ''''), Return, Return, AddTask 2 (Some '''')] (constructor False) =
     Some empty_key_example"
  by (simp add: empty_key_example_def queue_defs)

lemma stuck_example_reachable:
  "run [AddTask 0 None, Return, Return, Settle 0 Fulfilled, AddTask 1 (Some ''k''), Finally 0]
     (constructor False) = Some stuck_example"
  by (simp add: stuck_example_def queue_defs)

theorem falsy_key_always_inserted_witness:
  "run [AddTask 1 (Some ''''), Return, Return, AddTask 2 (Some '''')] (constructor False) =
     Some empty_key_example \<and>
   key (last (queue empty_key_example)) = Some '''' \<and>
   currentTaskKey empty_key_example = Some '''' \<and>
   addTask 3 (Some '''') empty_key_example = insertEntry 3 End (Some '''') empty_key_example \<and>
   queue (addTask 3 (Some '''') empty_key_example) =
     [\<lparr>task = 2, key = Some ''''\<rparr>, \<lparr>task = 3, key = Some ''''\<rparr>] \<and>
   started (addTask 3 (Some '''') empty_key_example) = [1] \<and>
   status stale_example = Cancelled \<and>
   step (AddTask 3 None) stale_example = Some (addTask 3 None stale_example) \<and>
   stack (addTask 3 None stale_example) = [AfterResurrected 3 End None] \<and>
   map_option queue (run [AddTask 3 None, Return] stale_example) =
     Some [\<lparr>task = 3, key = None\<rparr>]"
proof -
  note T1 = falsy_key_always_inserted [of "Some ''''" 3 empty_key_example empty_key_example]
  note T2 = falsy_key_always_inserted [of None 3 stale_example "addTask 3 None stale_example"]
  have e: "status empty_key_example \<noteq> Cancelled" "key (last (queue empty_key_example)) = Some ''''"
    "currentTaskKey empty_key_example = Some ''''"
    "queue empty_key_example = [\<lparr>task = 2, key = Some ''''\<rparr>]" "started empty_key_example = [1]"
    by (simp_all add: empty_key_example_def)
  have c: "status stale_example = Cancelled" "queue stale_example = []" "stack stale_example = []"
    by (simp_all add: stale_example_def)
  have a1: "addTask 3 (Some '''') empty_key_example = insertEntry 3 End (Some '''') empty_key_example"
    using T1 e(1) by simp
  have a2: "queue (insertEntry 3 End (Some '''') empty_key_example) =
     [\<lparr>task = 2, key = Some ''''\<rparr>, \<lparr>task = 3, key = Some ''''\<rparr>]"
    "started (insertEntry 3 End (Some '''') empty_key_example) = [1]"
    using T1 e(4,5) by simp_all
  have a3: "addTask 3 None stale_example =
     yield (AfterResurrected 3 End None)
       (stale_example\<lparr>version := version stale_example + 1, status := Idle,
          notified := notified stale_example @ [Idle]\<rparr>)"
    using T2 c(1) by simp
  have a4: "stack (addTask 3 None stale_example) = [AfterResurrected 3 End None]"
    "queue (addTask 3 None stale_example) = []"
    unfolding a3 using c by simp_all
  have a5: "run [AddTask 3 None, Return] stale_example =
     Some (insertEntry 3 End None ((addTask 3 None stale_example)\<lparr>stack := []\<rparr>))"
    using a4(1) by simp
  have a6: "queue (insertEntry 3 End None ((addTask 3 None stale_example)\<lparr>stack := []\<rparr>)) =
     [\<lparr>task = 3, key = None\<rparr>]"
    using falsy_key_always_inserted
      [of None 3 "(addTask 3 None stale_example)\<lparr>stack := []\<rparr>" stale_example] a4(2)
    by simp
  show ?thesis
    using empty_key_example_reachable e(2,3) a1 a2 c(1) a4(1) a5 a6 by simp
qed



subsection \<open>Cancellation\<close>



lemma two_blocked_example_reachable:
  "run [AddTask 1 None, Return, CancelQueue, Return, AddTask 2 None, Return, Return, Return,
        Return, Settle 0 (Rejected (NonError (Some ''boom''))), Return, Settle 1 Fulfilled]
     (constructor True) = Some two_blocked_example"
  by (simp add: two_blocked_example_def queue_defs)




subsection \<open>Stale activations\<close>

lemma stale_settle_keeps_status:
  assumes "version s \<noteq> captured (loops s ! lid)" "out = Fulfilled \<or> \<not> pauseOnError s"
  shows "status (taskSettled lid out s) = status s \<and>
         notified (taskSettled lid out s) = notified s"
  using assms
  by (cases out) (auto simp: taskSettled_def processLoop_def loopExit_def Let_def status_defs)

lemma stale_wake_keeps_status:
  assumes "version s \<noteq> captured (loops s ! lid)"
  shows "status (processLoop lid s) = status s \<and> notified (processLoop lid s) = notified s"
  using assms by (simp add: processLoop_def loopExit_def Let_def)

lemma stale_failure_pauses:
  assumes "pauseOnError s" "toError err = Some e"
  shows "status (taskSettled lid (Rejected err) s) = Paused"
  using assms by (simp add: taskSettled_def Let_def)

text \<open>
  Claim C1 says that the completion or failure of a task that was in flight when
  \<open>cancelQueue\<close> was called never alters the status, even with pause-on-error. The code
  evaluated at that input: the queue is cancelled while task 1 is in flight (captured
  generation 0, live generation 1); the task then rejects with \<open>"boom"\<close>. The \<open>catch\<close> block
  (lines 228-235) calls \<open>setStatus(Paused)\<close> without looking at the generation: the status
  goes from \<open>Cancelled\<close> to \<open>Paused\<close> and the callback fires. After a \<open>resumeQueue\<close> the stale
  activation returns silently and the queue is left \<open>Processing\<close> with no runner.
\<close>

theorem stale_failure_sets_Paused:
  "run [AddTask 1 None, Return, Return, AddTask 2 None, CancelQueue, Return] (constructor True) =
     Some stale_example \<and>
   status stale_example = Cancelled \<and>
   captured (loops stale_example ! 0) \<noteq> version stale_example \<and>
   pc (loops stale_example ! 0) = InTask \<and>
   map_option status (step (Settle 0 (Rejected (NonError (Some ''boom'')))) stale_example) =
     Some Paused \<and>
   map_option notified (step (Settle 0 (Rejected (NonError (Some ''boom'')))) stale_example) =
     Some [Idle, Processing, Cancelled, Paused] \<and>
   map_option status
     (run [Settle 0 (Rejected (NonError (Some ''boom''))), Return, ResumeQueue, Return, Wake 0,
           Finally 0] stale_example) =
     Some Processing \<and>
   map_option runner
     (run [Settle 0 (Rejected (NonError (Some ''boom''))), Return, ResumeQueue, Return, Wake 0,
           Finally 0] stale_example) =
     Some None \<and>
   map_option notified
     (run [Settle 0 (Rejected (NonError (Some ''boom''))), Return, ResumeQueue, Return, Wake 0,
           Finally 0] stale_example) =
     Some [Idle, Processing, Cancelled, Paused, Processing]"
  by (simp add: stale_example_def queue_defs)

subsection \<open>Resurrection\<close>

lemma enqueue_on_Cancelled:
  assumes "status s = Cancelled"
  shows "enqueue t pos k s =
         yield (AfterResurrected t pos k)
           (s\<lparr>version := version s + 1, status := Idle, notified := notified s @ [Idle]\<rparr>)"
  using assms by (simp add: enqueue_def isCancelled_def)

text \<open>
  Claim C5 says that a task submitted to a \<open>Cancelled\<close> queue is executed, the status
  passing through \<open>Cancelled, Idle, Processing, Idle\<close>. The first half holds: in a
  \<open>Cancelled\<close> queue \<open>enqueue\<close> increments the generation, sets \<open>Idle\<close> and notifies, and runs
  the insertion when the callback has returned. The code evaluated at the example of the
  README (\<open>addTask\<close>, \<open>cancelQueue\<close>, \<open>addTask\<close>, the first task still in flight): the second
  task is inserted, but \<open>startRunner\<close> returns at line 201 because \<open>runner\<close> still holds the
  promise of the cancelled activation. The status stays \<open>Idle\<close>; when the first task has
  finished the queue is \<open>Idle\<close> with the task pending, no runner and nothing left to happen.
  When nothing is in flight at the submission, the sequence is as claimed (last run).
\<close>

theorem resurrection_strands_task:
  "enqueue t pos k (s\<lparr>status := Cancelled\<rparr>) =
     yield (AfterResurrected t pos k)
       (s\<lparr>version := version s + 1, status := Idle, notified := notified s @ [Idle]\<rparr>) \<and>
   resume (AfterResurrected t pos k) s = insertEntry t pos k s \<and>
   run [AddTask 1 None, Return, Return, CancelQueue, Return] (constructor False) =
     Some \<lparr>queue = [], status = Cancelled, runner = Some 0, resumeResolve = None,
           lastError = None, pauseOnError = False, currentTaskKey = None, version = 1,
           notified = [Idle, Processing, Cancelled], started = [1],
           loops = [\<lparr>captured = 0, pc = InTask\<rparr>], stack = []\<rparr> \<and>
   run [AddTask 1 None, Return, Return, CancelQueue, Return, AddTask 2 None, Return]
     (constructor False) =
     Some \<lparr>queue = [\<lparr>task = 2, key = None\<rparr>], status = Idle, runner = Some 0,
           resumeResolve = None, lastError = None, pauseOnError = False, currentTaskKey = None,
           version = 2, notified = [Idle, Processing, Cancelled, Idle], started = [1],
           loops = [\<lparr>captured = 0, pc = InTask\<rparr>], stack = []\<rparr> \<and>
   run [AddTask 1 None, Return, Return, CancelQueue, Return, AddTask 2 None, Return,
        Settle 0 Fulfilled, Finally 0] (constructor False) = Some stranded_example \<and>
   status stranded_example = Idle \<and>
   queue stranded_example = [\<lparr>task = 2, key = None\<rparr>] \<and>
   started stranded_example = [1] \<and>
   notified stranded_example = [Idle, Processing, Cancelled, Idle] \<and>
   step Return stranded_example = None \<and>
   (\<forall>lid out. step (Settle lid out) stranded_example = None) \<and>
   (\<forall>lid. step (Wake lid) stranded_example = None) \<and>
   (\<forall>lid. step (Finally lid) stranded_example = None) \<and>
   run [CancelQueue, Return, AddTask 7 None, Return, Return, Return, Settle 0 Fulfilled,
        Finally 0] (constructor False) =
     Some \<lparr>queue = [], status = Idle, runner = None, resumeResolve = None, lastError = None,
           pauseOnError = False, currentTaskKey = None, version = 2,
           notified = [Idle, Cancelled, Idle, Processing, Idle], started = [7],
           loops = [\<lparr>captured = 2, pc = Done\<rparr>], stack = []\<rparr>"
proof -
  have q: "step Return stranded_example = None"
    "step (Settle lid out) stranded_example = None"
    "step (Wake lid) stranded_example = None"
    "step (Finally lid) stranded_example = None" for lid out
    by (auto simp: stranded_example_def)
  have r: "enqueue t pos k (s\<lparr>status := Cancelled\<rparr>) =
     yield (AfterResurrected t pos k)
       (s\<lparr>version := version s + 1, status := Idle, notified := notified s @ [Idle]\<rparr>)"
    "resume (AfterResurrected t pos k) s = insertEntry t pos k s"
    by (simp_all add: enqueue_def isCancelled_def yield_def)
  show ?thesis unfolding q r by (simp add: stranded_example_def queue_defs)
qed

subsection \<open>Pause on error\<close>

text \<open>
  Claim C7 says that after a failure under pause-on-error the loop suspends until
  \<open>resumeQueue\<close>. The code evaluated with a callback that calls \<open>resumeQueue\<close> when it is
  notified of \<open>Paused\<close>: line 232 notifies before line 233 stores the resolver, so
  \<open>resumeQueue\<close> finds no resolver, sets \<open>Processing\<close> and clears the error; then the
  activation stores its resolver and blocks. The queue is \<open>Processing\<close> with its loop
  blocked and task 2 pending, nothing is left to happen, and a further \<open>resumeQueue\<close> does
  nothing. The other parts of the claim, at the same input with a callback that does not
  call the queue: the thrown \<open>"boom"\<close> is captured as an \<open>Error\<close> with message \<open>"boom"\<close>,
  \<open>resumeQueue\<close> clears it and the loop starts task 2; without pause-on-error nothing is
  captured and task 2 is started at once.
\<close>

theorem resume_in_Paused_notification_blocks_loop:
  "run [AddTask 1 None, Return, Return, AddTask 2 None] (constructor True) =
     Some (inflight_example True) \<and>
   map_option stack
     (step (Settle 0 (Rejected (NonError (Some ''boom'')))) (inflight_example True)) =
     Some [AfterPaused 0] \<and>
   map_option resumeResolve
     (step (Settle 0 (Rejected (NonError (Some ''boom'')))) (inflight_example True)) =
     Some None \<and>
   map_option notified
     (step (Settle 0 (Rejected (NonError (Some ''boom'')))) (inflight_example True)) =
     Some [Idle, Processing, Paused] \<and>
   map_option lastTaskError
     (step (Settle 0 (Rejected (NonError (Some ''boom'')))) (inflight_example True)) =
     Some (Some (Error ''boom'')) \<and>
   run [Settle 0 (Rejected (NonError (Some ''boom''))), ResumeQueue, Return, Return]
     (inflight_example True) = Some lost_wakeup_example \<and>
   status lost_wakeup_example = Processing \<and>
   map pc (loops lost_wakeup_example) = [Blocked] \<and>
   queue lost_wakeup_example = [\<lparr>task = 2, key = None\<rparr>] \<and>
   started lost_wakeup_example = [1] \<and>
   step Return lost_wakeup_example = None \<and>
   (\<forall>lid out. step (Settle lid out) lost_wakeup_example = None) \<and>
   (\<forall>lid. step (Wake lid) lost_wakeup_example = None) \<and>
   (\<forall>lid. step (Finally lid) lost_wakeup_example = None) \<and>
   resumeQueue lost_wakeup_example = lost_wakeup_example \<and>
   run [Settle 0 (Rejected (NonError (Some ''boom''))), Return] (inflight_example True) =
     Some failed_example \<and>
   run [ResumeQueue, Return, Wake 0] failed_example =
     Some \<lparr>queue = [], status = Processing, runner = Some 0, resumeResolve = None,
           lastError = None, pauseOnError = True, currentTaskKey = None, version = 0,
           notified = [Idle, Processing, Paused, Processing], started = [1, 2],
           loops = [\<lparr>captured = 0, pc = InTask\<rparr>], stack = []\<rparr> \<and>
   step (Settle 0 (Rejected (NonError (Some ''boom'')))) (inflight_example False) =
     Some \<lparr>queue = [], status = Processing, runner = Some 0, resumeResolve = None,
           lastError = None, pauseOnError = False, currentTaskKey = None, version = 0,
           notified = [Idle, Processing], started = [1, 2],
           loops = [\<lparr>captured = 0, pc = InTask\<rparr>], stack = []\<rparr>"
proof -
  have q: "step Return lost_wakeup_example = None"
    "step (Settle lid out) lost_wakeup_example = None"
    "step (Wake lid) lost_wakeup_example = None"
    "step (Finally lid) lost_wakeup_example = None" for lid out
    by (auto simp: lost_wakeup_example_def)
  show ?thesis unfolding q
    by (simp add: inflight_example_def failed_example_def lost_wakeup_example_def queue_defs)
qed

lemma taskSettled_absorbed:
  "\<not> pauseOnError s \<Longrightarrow> taskSettled lid (Rejected err) s = taskSettled lid Fulfilled s"
  by (simp add: taskSettled_def Let_def)

lemma taskSettled_captured:
  assumes "pauseOnError s" "toError err = Some e"
  shows "taskSettled lid (Rejected err) s =
         (if status s \<noteq> Paused
          then yield (AfterPaused lid)
                 (set_pc lid Running
                    (s\<lparr>currentTaskKey := None, lastError := Some e, status := Paused,
                       notified := notified s @ [Paused]\<rparr>))
          else awaitResume lid (s\<lparr>currentTaskKey := None, lastError := Some e\<rparr>))"
  using assms by (simp add: taskSettled_def setStatus_def Let_def)

lemma unprintable_failure_ends_loop:
  "run [Settle 0 (Rejected (NonError None)), Finally 0] (inflight_example True) =
     Some \<lparr>queue = [\<lparr>task = 2, key = None\<rparr>], status = Processing, runner = None,
           resumeResolve = None, lastError = None, pauseOnError = True, currentTaskKey = None,
           version = 0, notified = [Idle, Processing], started = [1],
           loops = [\<lparr>captured = 0, pc = Done\<rparr>], stack = []\<rparr>"
  by (simp add: inflight_example_def queue_defs)

subsection \<open>Priority insertion\<close>

lemma set_pc_same:
  assumes "lid < length (loops s)" "pc (loops s ! lid) = p"
  shows "set_pc lid p s = s"
proof -
  have "(loops s ! lid)\<lparr>pc := p\<rparr> = loops s ! lid" using assms(2) by simp
  then show ?thesis by (simp add: set_pc_def)
qed

lemma processLoop_pull:
  assumes "queue s = e # es" "status s = Processing" "version s = captured (loops s ! lid)"
  shows "processLoop lid s =
         set_pc lid InTask (s\<lparr>queue := es, currentTaskKey := key e, started := started s @ [task e]\<rparr>)"
  using assms by (simp add: processLoop_def status_defs Let_def)

lemma addNextTask_busy:
  assumes "status s \<noteq> Idle" "status s \<noteq> Cancelled"
  shows "addNextTask t s = s\<lparr>queue := \<lparr>task = t, key = None\<rparr> # queue s\<rparr>"
  using assms by (simp add: addNextTask_def enqueue_def insertEntry_def isCancelled_def Let_def)

lemma taskSettled_pull:
  assumes "queue s = e # es" "status s = Processing" "version s = captured (loops s ! lid)"
    "out = Fulfilled \<or> \<not> pauseOnError s"
  shows "taskSettled lid out s =
         set_pc lid InTask (s\<lparr>queue := es, currentTaskKey := key e, started := started s @ [task e]\<rparr>)"
proof -
  have "taskSettled lid out s = processLoop lid (s\<lparr>currentTaskKey := None\<rparr>)"
    using assms(4) by (cases out) (auto simp: taskSettled_def Let_def)
  also have "\<dots> = set_pc lid InTask
       (s\<lparr>currentTaskKey := None, queue := es, currentTaskKey := key e,
          started := started s @ [task e]\<rparr>)"
    using processLoop_pull[of "s\<lparr>currentTaskKey := None\<rparr>" e es lid] assms(1,2,3) by simp
  finally show ?thesis by simp
qed

text \<open>
  The regular case of priority insertion. An \<open>addNextTask\<close> made while the queue is
  \<open>Processing\<close> and an activation of the live generation awaits its task puts the entry
  ahead of all pending entries and does nothing else: no task is started, no activation is
  touched. When the task in flight then fulfils, or rejects without pause-on-error, that
  activation starts the submitted task at once, the previously pending entries staying
  pending. When it rejects under pause-on-error with a callback that does not call the
  queue, the submitted task is the one the activation starts after \<open>resumeQueue\<close>.
\<close>

lemma addNextTask_runs_next:
  assumes "status s = Processing" "lid < length (loops s)" "pc (loops s ! lid) = InTask"
    "captured (loops s ! lid) = version s"
  shows "addNextTask t s = s\<lparr>queue := \<lparr>task = t, key = None\<rparr> # queue s\<rparr> \<and>
         (out = Fulfilled \<or> \<not> pauseOnError s \<longrightarrow>
            taskSettled lid out (addNextTask t s) =
              s\<lparr>currentTaskKey := None, started := started s @ [t]\<rparr>) \<and>
         (stack s = [] \<longrightarrow>
            step (Settle lid out) (addNextTask t s) =
              Some (taskSettled lid out (addNextTask t s))) \<and>
         (stack s = [] \<and> pauseOnError s \<and> toError err = Some e \<longrightarrow>
            run [Settle lid (Rejected err), Return, ResumeQueue, Return, Wake lid]
              (addNextTask t s) =
              Some (s\<lparr>currentTaskKey := None, started := started s @ [t], lastError := None,
                      resumeResolve := None,
                      notified := notified s @ [Paused, Processing]\<rparr>))"
proof -
  let ?a = "s\<lparr>queue := \<lparr>task = t, key = None\<rparr> # queue s\<rparr>"
  have a: "addNextTask t s = ?a" using assms(1) by (simp add: addNextTask_busy)
  have b: "taskSettled lid out ?a = s\<lparr>currentTaskKey := None, started := started s @ [t]\<rparr>"
    if h: "out = Fulfilled \<or> \<not> pauseOnError s"
  proof -
    have "taskSettled lid out ?a =
       set_pc lid InTask (?a\<lparr>queue := queue s, currentTaskKey := key \<lparr>task = t, key = None\<rparr>,
                            started := started ?a @ [task \<lparr>task = t, key = None\<rparr>]\<rparr>)"
      by (rule taskSettled_pull) (use assms h in simp_all)
    also have "\<dots> = set_pc lid InTask (s\<lparr>currentTaskKey := None, started := started s @ [t]\<rparr>)"
      by simp
    also have "\<dots> = s\<lparr>currentTaskKey := None, started := started s @ [t]\<rparr>"
      by (rule set_pc_same) (use assms in simp_all)
    finally show ?thesis .
  qed
  have c: "step (Settle lid out) ?a = Some (taskSettled lid out ?a)" if "stack s = []"
    using that assms by simp
  have d: "run [Settle lid (Rejected err), Return, ResumeQueue, Return, Wake lid] ?a =
              Some (s\<lparr>currentTaskKey := None, started := started s @ [t], lastError := None,
                      resumeResolve := None,
                      notified := notified s @ [Paused, Processing]\<rparr>)"
    if h: "stack s = [] \<and> pauseOnError s \<and> toError err = Some e"
  proof -
    let ?s1 = "?a\<lparr>currentTaskKey := None, lastError := Some e, status := Paused,
                  notified := notified s @ [Paused],
                  loops := (loops s)[lid := (loops s ! lid)\<lparr>pc := Running\<rparr>],
                  stack := [AfterPaused lid]\<rparr>"
    have 1: "step (Settle lid (Rejected err)) ?a = Some ?s1"
      using h assms by (simp add: taskSettled_def setStatus_def set_pc_def yield_def Let_def)
    let ?s2 = "?a\<lparr>currentTaskKey := None, lastError := Some e, status := Paused,
                  notified := notified s @ [Paused],
                  loops := (loops s)[lid := (loops s ! lid)\<lparr>pc := Blocked\<rparr>],
                  stack := [], resumeResolve := Some lid\<rparr>"
    have 2: "step Return ?s1 = Some ?s2"
      using assms by (simp add: awaitResume_def set_pc_def)
    let ?s3 = "?a\<lparr>currentTaskKey := None, lastError := None, status := Processing,
                  notified := notified s @ [Paused, Processing],
                  loops := (loops s)[lid := (loops s ! lid)\<lparr>pc := Blocked\<rparr>],
                  stack := [AfterResumed], resumeResolve := Some lid\<rparr>"
    have 3: "step ResumeQueue ?s2 = Some ?s3"
      by (simp add: resumeQueue_def isPaused_def setStatus_def yield_def)
    let ?s4 = "?a\<lparr>currentTaskKey := None, lastError := None, status := Processing,
                  notified := notified s @ [Paused, Processing],
                  loops := (loops s)[lid := (loops s ! lid)\<lparr>pc := Ready\<rparr>],
                  stack := [], resumeResolve := None\<rparr>"
    have 4: "step Return ?s3 = Some ?s4"
      using assms by (simp add: callResumeResolve_def set_pc_def)
    have 5: "step (Wake lid) ?s4 = Some (processLoop lid ?s4)"
      using assms by simp
    have "processLoop lid ?s4 =
       set_pc lid InTask (?s4\<lparr>queue := queue s, currentTaskKey := key \<lparr>task = t, key = None\<rparr>,
                            started := started ?s4 @ [task \<lparr>task = t, key = None\<rparr>]\<rparr>)"
      by (rule processLoop_pull) (use assms in simp_all)
    also have "\<dots> = s\<lparr>currentTaskKey := None, started := started s @ [t], lastError := None,
                      resumeResolve := None,
                      notified := notified s @ [Paused, Processing]\<rparr>"
    proof -
      have "(loops s)[lid := (loops s ! lid)\<lparr>pc := Ready\<rparr>,
                      lid := ((loops s)[lid := (loops s ! lid)\<lparr>pc := Ready\<rparr>] ! lid)\<lparr>pc := InTask\<rparr>] =
            loops s"
      proof -
        have "((loops s ! lid)\<lparr>pc := Ready\<rparr>)\<lparr>pc := InTask\<rparr> = loops s ! lid"
          using assms(3) by simp
        then show ?thesis using assms(2) by simp
      qed
      then show ?thesis using h assms(1) by (simp add: set_pc_def)
    qed
    finally have 6: "processLoop lid ?s4 =
        s\<lparr>currentTaskKey := None, started := started s @ [t], lastError := None,
                      resumeResolve := None,
                      notified := notified s @ [Paused, Processing]\<rparr>" .
    show ?thesis
      using 1 2 3 4 5 6 by (simp del: step.simps)
  qed
  show ?thesis unfolding a using b c d by blast
qed

lemma addNextTask_runs_next_example:
  "run [AddTask 1 None, Return, Return, AddTask 2 None] (constructor False) =
     Some (inflight_example False) \<and>
   status (inflight_example False) = Processing \<and>
   pc (loops (inflight_example False) ! 0) = InTask \<and>
   queue (addNextTask 3 (inflight_example False)) =
     [\<lparr>task = 3, key = None\<rparr>, \<lparr>task = 2, key = None\<rparr>] \<and>
   started (addNextTask 3 (inflight_example False)) = [1] \<and>
   loops (addNextTask 3 (inflight_example False)) = [\<lparr>captured = 0, pc = InTask\<rparr>] \<and>
   run [AddNextTask 3, Settle 0 Fulfilled] (inflight_example False) =
     Some ((inflight_example False)\<lparr>currentTaskKey := None, started := [1, 3]\<rparr>) \<and>
   run [AddNextTask 3, Settle 0 (Rejected (NonError (Some ''boom''))), Return, ResumeQueue,
        Return, Wake 0] (inflight_example True) =
     Some ((inflight_example True)
             \<lparr>currentTaskKey := None, started := [1, 3], lastError := None,
                resumeResolve := None,
                notified := [Idle, Processing, Paused, Processing]\<rparr>)"
proof -
  have f: "status (inflight_example poe) = Processing" "0 < length (loops (inflight_example poe))"
    "pc (loops (inflight_example poe) ! 0) = InTask"
    "captured (loops (inflight_example poe) ! 0) = version (inflight_example poe)"
    "stack (inflight_example poe) = []" "started (inflight_example poe) = [1]"
    "queue (inflight_example poe) = [\<lparr>task = 2, key = None\<rparr>]"
    "loops (inflight_example poe) = [\<lparr>captured = 0, pc = InTask\<rparr>]"
    "notified (inflight_example poe) = [Idle, Processing]"
    "pauseOnError (inflight_example poe) = poe" for poe
    by (simp_all add: inflight_example_def)
  note T = addNextTask_runs_next
    [OF f(1)[of False] f(2)[of False] f(3)[of False] f(4)[of False],
     where t = 3 and out = Fulfilled and err = "NonError (Some ''boom'')" and e = "Error ''boom''"]
  note U = addNextTask_runs_next
    [OF f(1)[of True] f(2)[of True] f(3)[of True] f(4)[of True],
     where t = 3 and out = Fulfilled and err = "NonError (Some ''boom'')" and e = "Error ''boom''"]
  have a: "addNextTask 3 (inflight_example False) =
     (inflight_example False)\<lparr>queue := \<lparr>task = 3, key = None\<rparr> # queue (inflight_example False)\<rparr>"
    using T by blast
  have b: "taskSettled 0 Fulfilled (addNextTask 3 (inflight_example False)) =
     (inflight_example False)\<lparr>currentTaskKey := None,
        started := started (inflight_example False) @ [3]\<rparr>"
    using T by blast
  have c: "step (Settle 0 Fulfilled) (addNextTask 3 (inflight_example False)) =
     Some (taskSettled 0 Fulfilled (addNextTask 3 (inflight_example False)))"
    using T f(5) by blast
  have d: "run [AddNextTask 3, Settle 0 Fulfilled] (inflight_example False) =
     Some ((inflight_example False)\<lparr>currentTaskKey := None, started := [1, 3]\<rparr>)"
    using b c f(6) by (simp del: step.simps(9))
  have te: "toError (NonError (Some ''boom'')) = Some (Error ''boom'')"
    by (simp add: toError_def)
  have e: "run [Settle 0 (Rejected (NonError (Some ''boom''))), Return, ResumeQueue, Return, Wake 0]
      (addNextTask 3 (inflight_example True)) =
     Some ((inflight_example True)
             \<lparr>currentTaskKey := None, started := started (inflight_example True) @ [3],
                lastError := None, resumeResolve := None,
                notified := notified (inflight_example True) @ [Paused, Processing]\<rparr>)"
    using U f(5,10) te by blast
  have g: "run [AddNextTask 3, Settle 0 (Rejected (NonError (Some ''boom''))), Return, ResumeQueue,
        Return, Wake 0] (inflight_example True) =
     Some ((inflight_example True)
             \<lparr>currentTaskKey := None, started := [1, 3], lastError := None,
                resumeResolve := None,
                notified := [Idle, Processing, Paused, Processing]\<rparr>)"
  proof -
    have "run [AddNextTask 3, Settle 0 (Rejected (NonError (Some ''boom''))), Return, ResumeQueue,
        Return, Wake 0] (inflight_example True) =
       run [Settle 0 (Rejected (NonError (Some ''boom''))), Return, ResumeQueue, Return, Wake 0]
         (addNextTask 3 (inflight_example True))"
      by (simp del: step.simps(8-11))
    then show ?thesis unfolding e by (simp add: f(6,9))
  qed
  have q: "queue (addNextTask 3 (inflight_example False)) =
     [\<lparr>task = 3, key = None\<rparr>, \<lparr>task = 2, key = None\<rparr>]"
    "started (addNextTask 3 (inflight_example False)) = [1]"
    "loops (addNextTask 3 (inflight_example False)) = [\<lparr>captured = 0, pc = InTask\<rparr>]"
    unfolding a by (simp_all add: f)
  show ?thesis
    using inflight_example_reachable[of False] f(1,3)[of False] q d g by simp
qed

text \<open>
  Claim C8 says that a task passed to \<open>addNextTask\<close> while another task is executing runs
  right after that task. The code evaluated at two inputs where a task is executing.
  First, the queue was cancelled while task 1 was in flight: \<open>addNextTask\<close> resurrects the
  queue and inserts the entry, but \<open>startRunner\<close> returns at line 201 because \<open>runner\<close> still
  holds the promise of the cancelled activation; when task 1 has finished the queue is
  \<open>Idle\<close> with task 3 pending and no runner. Second, task 1 cancelled the queue and
  submitted task 2 in its synchronous part, and the activation of task 2 has finished: the
  queue is \<open>Idle\<close> with no runner while task 1 is still in flight, and \<open>addNextTask\<close> starts
  task 3 at once, beside task 1. For comparison, the regular case (task 3 is started when
  task 1 fulfils) and the paused queue (task 3 waits for \<open>resumeQueue\<close> and is then the
  first to start).
\<close>

theorem addNextTask_not_run_next:
  "run [AddTask 1 None, Return, Return, AddTask 2 None, CancelQueue, Return] (constructor True) =
     Some stale_example \<and>
   pc (loops stale_example ! 0) = InTask \<and>
   run [AddNextTask 3, Return] stale_example =
     Some \<lparr>queue = [\<lparr>task = 3, key = None\<rparr>], status = Idle, runner = Some 0,
           resumeResolve = None, lastError = None, pauseOnError = True, currentTaskKey = None,
           version = 2, notified = [Idle, Processing, Cancelled, Idle], started = [1],
           loops = [\<lparr>captured = 0, pc = InTask\<rparr>], stack = []\<rparr> \<and>
   run [AddNextTask 3, Return, Settle 0 Fulfilled, Finally 0] stale_example =
     Some \<lparr>queue = [\<lparr>task = 3, key = None\<rparr>], status = Idle, runner = None,
           resumeResolve = None, lastError = None, pauseOnError = True, currentTaskKey = None,
           version = 2, notified = [Idle, Processing, Cancelled, Idle], started = [1],
           loops = [\<lparr>captured = 0, pc = Done\<rparr>], stack = []\<rparr> \<and>
   run [AddTask 1 None, Return, CancelQueue, Return, AddTask 2 None, Return, Return, Return,
        Return, Settle 1 Fulfilled, Finally 1] (constructor False) = Some overlap_example \<and>
   map pc (loops overlap_example) = [InTask, Done] \<and>
   started overlap_example = [1, 2] \<and>
   run [AddNextTask 3, Return, Return] overlap_example =
     Some \<lparr>queue = [], status = Processing, runner = Some 2, resumeResolve = None,
           lastError = None, pauseOnError = False, currentTaskKey = None, version = 2,
           notified = [Idle, Processing, Cancelled, Idle, Processing, Idle, Processing],
           started = [1, 2, 3],
           loops = [\<lparr>captured = 0, pc = InTask\<rparr>, \<lparr>captured = 2, pc = Done\<rparr>,
                    \<lparr>captured = 2, pc = InTask\<rparr>], stack = []\<rparr> \<and>
   run [AddNextTask 3, Settle 0 Fulfilled] (inflight_example False) =
     Some ((inflight_example False)\<lparr>currentTaskKey := None, started := [1, 3]\<rparr>) \<and>
   run [AddTask 1 None, Return, Return, AddTask 2 None, PauseQueue, AddNextTask 3,
        Settle 0 Fulfilled] (constructor False) =
     Some \<lparr>queue = [\<lparr>task = 3, key = None\<rparr>, \<lparr>task = 2, key = None\<rparr>], status = Paused,
           runner = Some 0, resumeResolve = Some 0, lastError = None, pauseOnError = False,
           currentTaskKey = None, version = 0, notified = [Idle, Processing, Paused],
           started = [1], loops = [\<lparr>captured = 0, pc = Blocked\<rparr>], stack = []\<rparr> \<and>
   run [AddTask 1 None, Return, Return, AddTask 2 None, PauseQueue, AddNextTask 3,
        Settle 0 Fulfilled, ResumeQueue, Return, Wake 0] (constructor False) =
     Some \<lparr>queue = [\<lparr>task = 2, key = None\<rparr>], status = Processing, runner = Some 0,
           resumeResolve = None, lastError = None, pauseOnError = False, currentTaskKey = None,
           version = 0, notified = [Idle, Processing, Paused, Processing], started = [1, 3],
           loops = [\<lparr>captured = 0, pc = InTask\<rparr>], stack = []\<rparr>"
  by (simp add: stale_example_def overlap_example_def inflight_example_def queue_defs)

subsection \<open>Submission order\<close>

lemma nth_update_pc_captured:
  "i < length ls \<Longrightarrow> captured (ls[l := (ls ! l)\<lparr>pc := p\<rparr>] ! i) = captured (ls ! i)"
  by (cases "i = l") simp_all

lemma loopExit_fields [simp]:
  "queue (loopExit lid s) = queue s" "started (loopExit lid s) = started s"
  "version (loopExit lid s) = version s" "stack (loopExit lid s) = stack s"
  "length (loops (loopExit lid s)) = length (loops s)"
  by (simp_all add: loopExit_def)

lemma processLoop_fields [simp]:
  "version (processLoop lid s) = version s" "stack (processLoop lid s) = stack s"
  "length (loops (processLoop lid s)) = length (loops s)"
  by (simp_all add: processLoop_def Let_def split: list.splits)

lemma work_processLoop [simp]: "work (processLoop lid s) = work s"
  by (simp add: work_def processLoop_def status_defs Let_def split: list.splits)

lemma work_taskSettled [simp]: "work (taskSettled lid out s) = work s"
proof -
  have "work (processLoop lid (s\<lparr>currentTaskKey := None\<rparr>)) = work s"
    unfolding work_processLoop by (simp add: work_def)
  then show ?thesis
    by (cases out) (auto simp: taskSettled_def Let_def work_def split: option.splits)
qed

lemma work_launch [simp]: "work (launch s) = work s"
proof -
  let ?s1 = "s\<lparr>loops := loops s @ [\<lparr>captured = version s, pc = Running\<rparr>]\<rparr>"
  have "work (processLoop (length (loops s)) ?s1) = work s"
    unfolding work_processLoop by (simp add: work_def)
  then show ?thesis by (auto simp: launch_def Let_def work_def)
qed

lemma work_startRunner [simp]: "work (startRunner s) = work s"
proof (cases "runner s = None \<and> \<not> (isCancelled s \<or> length (queue s) = 0) \<and> status s = Processing")
  case True
  then have "startRunner s = launch s" by (simp add: startRunner_def)
  then show ?thesis by simp
next
  case False
  then show ?thesis by (auto simp: startRunner_def work_def)
qed




lemma submit_inv_fields [simp]:
  "submit_inv (s\<lparr>queue := q\<rparr>) = submit_inv s"
  "submit_inv (s\<lparr>currentTaskKey := k\<rparr>) = submit_inv s"
  "submit_inv (s\<lparr>started := st\<rparr>) = submit_inv s"
  "submit_inv (s\<lparr>lastError := le\<rparr>) = submit_inv s"
  "submit_inv (s\<lparr>runner := r\<rparr>) = submit_inv s"
  "submit_inv (s\<lparr>resumeResolve := rr\<rparr>) = submit_inv s"
  by (simp_all add: submit_inv_def)

lemma submit_inv_setStatus [simp]:
  "submit_inv s \<Longrightarrow> n \<noteq> Cancelled \<Longrightarrow> submit_inv (setStatus n s)"
  by (auto simp: submit_inv_def setStatus_def)

lemma submit_inv_set_pc [simp]: "submit_inv (set_pc lid p s) = submit_inv s"
  by (simp add: submit_inv_def set_pc_def nth_update_pc_captured)

lemma submit_inv_awaitResume [simp]: "submit_inv (awaitResume lid s) = submit_inv s"
  by (simp add: awaitResume_def)


lemma submit_inv_loopExit [simp]: "submit_inv s \<Longrightarrow> submit_inv (loopExit lid s)"
  by (simp add: loopExit_def)

lemma submit_inv_processLoop [simp]: "submit_inv s \<Longrightarrow> submit_inv (processLoop lid s)"
  by (simp add: processLoop_def Let_def split: list.splits)
















lemma has_live_fields [simp]:
  "has_live (s\<lparr>queue := q\<rparr>) = has_live s"
  "has_live (s\<lparr>currentTaskKey := k\<rparr>) = has_live s"
  "has_live (s\<lparr>started := st\<rparr>) = has_live s"
  "has_live (s\<lparr>lastError := le\<rparr>) = has_live s"
  "has_live (s\<lparr>runner := r\<rparr>) = has_live s"
  "has_live (s\<lparr>resumeResolve := rr\<rparr>) = has_live s"
  "has_live (s\<lparr>stack := fs\<rparr>) = has_live s"
  "has_live (s\<lparr>status := n\<rparr>) = has_live s"
  "has_live (s\<lparr>notified := ns\<rparr>) = has_live s"
  "has_live (yield f s) = has_live s"
  "has_live (setStatus n s) = has_live s"
  by (simp_all add: has_live_def)






















end
